theory Spec2Isabelle
  imports Complex_Main "HOL-Library.Word"
begin

section \<open>The file-share relay server (server.js)\<close>

text \<open>
  The server keeps two global tables, \<open>rooms\<close> and \<open>activeTransfers\<close>, and reacts to
  socket events (\<open>join-room\<close>, \<open>start-transfer\<close>, \<open>disconnect\<close>), to the events of the read
  streams it opens (\<open>data\<close>, \<open>end\<close>, \<open>error\<close>) and to the timers it sets. Node runs one handler
  at a time, so a run of the server is a list of events, each handled to completion. Every
  handler below is the handler of the source, as a function from the state to the events it
  emits and the new state. The second copy of the server in the repository (port 5000, no
  static files) has the same socket handlers; it only stores the transfer record before it
  builds the metadata instead of after, which changes nothing.

  Outside the state modelled here: \<open>console.log\<close>, the HTTP upload route, and the broadcast
  groups of socket.io that \<open>socket.join(roomId)\<close> and \<open>socket.leave(roomId)\<close> change (no handler
  reads them; an emission records the address it was sent to). The file system is a map from
  normalised absolute paths to files and directories (POSIX paths; no links, no permissions),
  and a file does not change while a stream reads it.
\<close>

subsection \<open>Strings and paths\<close>

type_synonym conn_id = string
type_synonym byte = "8 word"

text \<open>\<open>s.split(c)\<close> for a one-character separator; \<open>''''.split(c)\<close> is the list of one empty string.\<close>

fun split :: "char \<Rightarrow> string \<Rightarrow> string list" where
  "split c [] = [[]]"
| "split c (x # xs) =
     (if x = c then [] # split c xs
      else (case split c xs of [] \<Rightarrow> [[x]] | w # ws \<Rightarrow> (x # w) # ws))"

text \<open>\<open>parts.slice(1)\<close>.\<close>

definition slice1 :: "'a list \<Rightarrow> 'a list" where
  "slice1 parts = drop 1 parts"

text \<open>\<open>parts.join(c)\<close>.\<close>

fun join :: "char \<Rightarrow> string list \<Rightarrow> string" where
  "join c [] = []"
| "join c [w] = w"
| "join c (w # v # ws) = w @ c # join c (v # ws)"

text \<open>
  \<open>path.join(a, b, ...)\<close> on POSIX: the arguments that are not empty are put together with
  separators and the result is normalised. Normalising drops empty segments and \<open>.\<close>, lets
  \<open>..\<close> remove the segment before it (at the root of an absolute path it is dropped, in a
  relative path it is kept when nothing is left to remove), and keeps one trailing separator.
\<close>

definition segments :: "string \<Rightarrow> string list" where
  "segments p = filter (\<lambda>seg. seg \<noteq> []) (split CHR ''/'' p)"

definition norm_step :: "bool \<Rightarrow> string list \<Rightarrow> string \<Rightarrow> string list" where
  "norm_step allowAboveRoot res seg =
     (if seg = ''.'' then res
      else if seg = ''..'' then
        (if res \<noteq> [] \<and> last res \<noteq> ''..'' then butlast res
         else if allowAboveRoot then res @ [''..''] else res)
      else res @ [seg])"

definition normalize :: "string \<Rightarrow> string" where
  "normalize p =
     (if p = [] then ''.''
      else (let isAbsolute = (hd p = CHR ''/'');
                trailingSeparator = (last p = CHR ''/'');
                res = join CHR ''/'' (foldl (norm_step (\<not> isAbsolute)) [] (segments p))
            in if res = [] then (if isAbsolute then ''/'' else if trailingSeparator then ''./'' else ''.'')
               else (if isAbsolute then ''/'' else []) @ res @ (if trailingSeparator then ''/'' else [])))"

definition path_join :: "string list \<Rightarrow> string" where
  "path_join args =
     (case filter (\<lambda>arg. arg \<noteq> []) args of
        [] \<Rightarrow> ''.''
      | a # as \<Rightarrow> normalize (join CHR ''/'' (a # as)))"

text \<open>\<open>path.basename(p)\<close>: the last segment of the path, trailing separators ignored.\<close>

definition path_basename :: "string \<Rightarrow> string" where
  "path_basename p =
     rev (takeWhile (\<lambda>x. x \<noteq> CHR ''/'') (dropWhile (\<lambda>x. x = CHR ''/'') (rev p)))"

text \<open>
  \<open>path.extname(p)\<close>: from the last dot of the last segment to its end; empty when the segment
  has no dot, when its only dot is its first character, and when the segment is \<open>..\<close>.
\<close>

definition path_extname :: "string \<Rightarrow> string" where
  "path_extname p =
     (let b = path_basename p in
      if CHR ''.'' \<notin> set b then []
      else if tl (dropWhile (\<lambda>x. x \<noteq> CHR ''.'') (rev b)) = [] then []
      else if b = ''..'' then []
      else CHR ''.'' # rev (takeWhile (\<lambda>x. x \<noteq> CHR ''.'') (rev b)))"

text \<open>\<open>toLowerCase\<close> on the ASCII letters (the keys of the MIME table are ASCII).\<close>

definition lower_char :: "char \<Rightarrow> char" where
  "lower_char x =
     (case map_of (zip ''ABCDEFGHIJKLMNOPQRSTUVWXYZ'' ''abcdefghijklmnopqrstuvwxyz'') x of
        Some y \<Rightarrow> y
      | None \<Rightarrow> x)"

definition toLowerCase :: "string \<Rightarrow> string" where
  "toLowerCase s = map lower_char s"

definition mimeTypes :: "(string \<times> string) list" where
  "mimeTypes =
     [(''.html'', ''text/html''), (''.js'', ''text/javascript''), (''.css'', ''text/css''),
      (''.json'', ''application/json''), (''.png'', ''image/png''), (''.jpg'', ''image/jpg''),
      (''.gif'', ''image/gif''), (''.svg'', ''image/svg+xml''), (''.wav'', ''audio/wav''),
      (''.mp4'', ''video/mp4''), (''.woff'', ''application/font-woff''),
      (''.ttf'', ''application/font-ttf''), (''.eot'', ''application/vnd.ms-fontobject''),
      (''.otf'', ''application/font-otf''), (''.wasm'', ''application/wasm'')]"

definition getMimeType :: "string \<Rightarrow> string" where
  "getMimeType filePath =
     (let ext = toLowerCase (path_extname filePath) in
      case map_of mimeTypes ext of Some t \<Rightarrow> t | None \<Rightarrow> ''application/octet-stream'')"

text \<open>The \<open>name\<close> field of the metadata: \<open>path.basename(filePath).split('-').slice(1).join('-')\<close>.\<close>

definition display_name :: "string \<Rightarrow> string" where
  "display_name filePath = join CHR ''-'' (slice1 (split CHR ''-'' (path_basename filePath)))"

subsection \<open>JavaScript numbers: the progress percentage\<close>

text \<open>
  \<open>Math.min(100, Math.round((sentBytes / stats.size) * 100))\<close> is computed on IEEE doubles: the
  quotient is rounded to the nearest double, the product is rounded again, and only then
  \<open>Math.round\<close> takes the nearest integer (ties upwards). \<open>fl\<close> is that rounding to 53
  significant bits, ties to even, on the rationals (\<open>fl_pos\<close> for a positive number, mirrored
  for a negative one); exponent range is not a concern for byte counts (both operands are
  integers below \<open>2^53\<close>, which doubles hold exactly). Dividing by a size of zero gives
  \<open>NaN\<close> (\<open>0/0\<close>) or infinity, and \<open>Math.min(100, Infinity)\<close> is 100.
\<close>

fun bitlen :: "nat \<Rightarrow> nat" where
  "bitlen n = (if n = 0 then 0 else Suc (bitlen (n div 2)))"

declare bitlen.simps [simp del]

text \<open>The binary exponent of a positive rational: \<open>2^ilog2 x \<le> x < 2^(ilog2 x + 1)\<close>.\<close>

definition ilog2 :: "rat \<Rightarrow> int" where
  "ilog2 x = (case quotient_of x of (p, q) \<Rightarrow>
     (let k = int (bitlen (nat p)) - int (bitlen (nat q))
      in if 2 powi k \<le> x then k else k - 1))"

definition round_half_even :: "rat \<Rightarrow> int" where
  "round_half_even y = (let f = \<lfloor>y\<rfloor>; d = y - of_int f
     in if d < 1 / 2 then f else if 1 / 2 < d then f + 1 else if even f then f else f + 1)"

definition fl_pos :: "rat \<Rightarrow> rat" where
  "fl_pos x = (let e = ilog2 x - 52 in of_int (round_half_even (x / 2 powi e)) * 2 powi e)"

definition fl :: "rat \<Rightarrow> rat" where
  "fl x = (if x = 0 then 0 else if 0 < x then fl_pos x else - fl_pos (- x))"

definition Math_round :: "rat \<Rightarrow> int" where
  "Math_round x = \<lfloor>x + 1 / 2\<rfloor>"

datatype jsnum = Num int | NaN

text \<open>The percentage for a size that is not zero.\<close>

definition percent :: "nat \<Rightarrow> nat \<Rightarrow> int" where
  "percent sent tot = min 100 (Math_round (fl (fl (of_nat sent / of_nat tot) * 100)))"

definition progress :: "nat \<Rightarrow> nat \<Rightarrow> jsnum" where
  "progress sent tot =
     (if tot = 0 then (if sent = 0 then NaN else Num 100) else Num (percent sent tot))"

subsection \<open>Objects as ordered dictionaries\<close>

text \<open>
  \<open>rooms\<close> is a JavaScript object iterated with \<open>for ... in\<close>, so the order of its keys
  matters: keys that are array indices (canonical decimal numerals up to \<open>2^32 - 2\<close>) come
  first, in ascending numeric order, then the other keys in the order they were created. The
  table is an association list kept in that order.
\<close>

definition digit :: "char \<Rightarrow> bool" where
  "digit x = ((48::nat) \<le> of_char x \<and> of_char x \<le> (57::nat))"

definition digits_val :: "string \<Rightarrow> nat" where
  "digits_val s = foldl (\<lambda>n x. 10 * n + (of_char x - 48)) 0 s"

definition array_index :: "string \<Rightarrow> nat option" where
  "array_index k =
     (if k \<noteq> [] \<and> list_all digit k \<and> (k = ''0'' \<or> hd k \<noteq> CHR ''0'') \<and> digits_val k \<le> 4294967294
      then Some (digits_val k) else None)"

text \<open>Whether a new key \<open>k\<close> is enumerated before the existing key \<open>k'\<close>.\<close>

definition comes_before :: "string \<Rightarrow> string \<Rightarrow> bool" where
  "comes_before k k' =
     (case array_index k of
        None \<Rightarrow> False
      | Some i \<Rightarrow> (case array_index k' of None \<Rightarrow> True | Some j \<Rightarrow> i < j))"

fun obj_insert :: "string \<Rightarrow> 'v \<Rightarrow> (string \<times> 'v) list \<Rightarrow> (string \<times> 'v) list" where
  "obj_insert k v [] = [(k, v)]"
| "obj_insert k v ((k', v') # kvs) =
     (if comes_before k k' then (k, v) # (k', v') # kvs else (k', v') # obj_insert k v kvs)"

text \<open>\<open>obj[k] = v\<close>: an existing key keeps its place, a new key is placed by the rule above.\<close>

definition obj_set :: "string \<Rightarrow> 'v \<Rightarrow> (string \<times> 'v) list \<Rightarrow> (string \<times> 'v) list" where
  "obj_set k v kvs =
     (if k \<in> fst ` set kvs then map (\<lambda>(k', v'). if k' = k then (k', v) else (k', v')) kvs
      else obj_insert k v kvs)"

text \<open>
  \<open>rooms\<close> is created as \<open>{}\<close>, so \<open>rooms[roomId]\<close> also finds what the object inherits from
  \<open>Object.prototype\<close>: the prototype itself under \<open>__proto__\<close>, one function object under each
  of the other built-in names, and whatever the program has stored on the prototype. The
  \<open>join-room\<close> handler writes \<open>sender\<close> and \<open>receiver\<close> to the object it finds, so these two
  properties of the prototype and of the built-in function objects are part of the state:
  \<open>None\<close> for a property the object does not have itself.
\<close>

definition builtin_functions :: "string list" where
  "builtin_functions =
     [''constructor'', ''__defineGetter__'', ''__defineSetter__'', ''hasOwnProperty'',
      ''__lookupGetter__'', ''__lookupSetter__'', ''isPrototypeOf'', ''propertyIsEnumerable'',
      ''toString'', ''valueOf'', ''toLocaleString'']"

record slots =
  own_sender :: "string option"
  own_receiver :: "string option"

definition no_slots :: slots where
  "no_slots = \<lparr>own_sender = None, own_receiver = None\<rparr>"

subsection \<open>The data of the server\<close>

text \<open>A slot of a room holds \<open>null\<close> or a connection identifier.\<close>

record room =
  sender :: "conn_id option"
  receiver :: "conn_id option"
  r_fileId :: "string option"

text \<open>\<open>!x\<close> on a slot is true for \<open>null\<close> and for the empty string.\<close>

definition truthy :: "string option \<Rightarrow> bool" where
  "truthy x = (case x of None \<Rightarrow> False | Some s \<Rightarrow> s \<noteq> [])"

record transfer =
  fileId :: string
  receiverId :: string
  filePath :: string
  sentBytes :: nat
  totalBytes :: nat

record fileInfo =
  info_id :: string
  info_name :: string
  info_size :: nat
  info_type :: string

datatype role = Sender | Receiver

text \<open>
  The events the server emits. A \<open>file-chunk\<close> carries the chunk as base64 text; the model
  keeps the bytes that text encodes.
\<close>

datatype payload =
    RoomJoined role string
  | RoomFull
  | UserJoined conn_id
  | TransferError string
  | TransferStarted fileInfo
  | FileChunk string "byte list" jsnum
  | TransferProgress jsnum
  | TransferComplete
  | TransferCancelled

text \<open>\<open>socket.emit(...)\<close> answers the connection whose handler runs; \<open>io.to(x).emit(...)\<close>
  addresses whatever identifier \<open>x\<close> it is given.\<close>

datatype dest = ToSocket conn_id | IoTo string

type_synonym emission = "dest \<times> payload"

text \<open>
  What one \<open>start-transfer\<close> handler leaves behind: the variables its stream callbacks close
  over (\<open>socket.id\<close>, \<open>fileId\<close>, \<open>receiverId\<close>, \<open>filePath\<close>, \<open>stats.size\<close>) and the read
  stream itself, as the bytes it has not delivered yet and whether it has ended or was destroyed.
\<close>

record stream =
  socket_id :: conn_id
  c_fileId :: string
  c_receiverId :: string
  c_filePath :: string
  stats_size :: nat
  unread :: "byte list"
  regular :: bool
  closed :: bool

text \<open>
  What a path can name: a regular file with its bytes, or a directory with the size \<open>stat\<close>
  reports for it. A directory can be opened for reading, but every read of it fails.
\<close>

datatype node = File "byte list" | Dir nat

fun node_size :: "node \<Rightarrow> nat" where
  "node_size (File content) = length content"
| "node_size (Dir n) = n"

fun node_bytes :: "node \<Rightarrow> byte list" where
  "node_bytes (File content) = content"
| "node_bytes (Dir n) = []"

fun is_file :: "node \<Rightarrow> bool" where
  "is_file (File content) = True"
| "is_file (Dir n) = False"

text \<open>
  What \<open>fs.existsSync\<close>, \<open>fs.statSync\<close> and \<open>fs.createReadStream\<close> find at a normalised path:
  the keys of the map have no trailing separator, and a path that has one names a directory
  or nothing.
\<close>

definition lookup :: "(string \<rightharpoonup> node) \<Rightarrow> string \<Rightarrow> node option" where
  "lookup disk p =
     (if p \<noteq> [] \<and> p \<noteq> ''/'' \<and> last p = CHR ''/'' then
        (case disk (butlast p) of Some (Dir n) \<Rightarrow> Some (Dir n) | _ \<Rightarrow> None)
      else disk p)"

text \<open>
  The state: the two tables; the two properties the join handler can leave on
  \<open>Object.prototype\<close> and on the built-in function objects; the module's directory
  \<open>__dirname\<close>, fixed when the process starts; the file system; the streams opened so far;
  the paths of the pending deletion timers. Connection identifiers are the strings socket.io
  generates for its sockets, not input of a client: \<open>activeTransfers\<close>, which only they
  index, is read at its own keys.
\<close>

record server =
  rooms :: "(string \<times> room) list"
  activeTransfers :: "conn_id \<rightharpoonup> transfer"
  object_prototype :: slots
  builtin_own :: "string \<Rightarrow> slots"
  dirname :: string
  files :: "string \<rightharpoonup> node"
  streams :: "stream list"
  timers :: "string list"

text \<open>\<open>const uploadsDir = path.join(__dirname, 'uploads')\<close>.\<close>

definition uploadsDir :: "server \<Rightarrow> string" where
  "uploadsDir st = path_join [dirname st, ''uploads'']"

text \<open>
  A handler either fails or returns what it emitted, in order, and the new state. An uncaught
  \<open>TypeError\<close> in a stream callback ends the Node process. \<open>NotEnabled\<close> is not an outcome of
  the server: it marks an event the environment cannot deliver in that state (data from a
  stream that has nothing left, a timer that was never set).
\<close>

datatype failure = TypeError | NotEnabled

type_synonym outcome = "failure + (emission list \<times> server)"

subsection \<open>The handlers\<close>

text \<open>
  What \<open>rooms[roomId]\<close> evaluates to: a room of the table, \<open>Object.prototype\<close>, a built-in
  function object, a string that an earlier join left on the prototype, or \<open>undefined\<close>.
\<close>

datatype found = Own room | ObjectPrototype | BuiltinFunction string | Str string | Undefined

definition rooms_get :: "server \<Rightarrow> string \<Rightarrow> found" where
  "rooms_get st k =
     (case map_of (rooms st) k of
        Some r \<Rightarrow> Own r
      | None \<Rightarrow>
          if k = ''__proto__'' then ObjectPrototype
          else if k \<in> set builtin_functions then BuiltinFunction k
          else if k = ''sender'' then
            (case own_sender (object_prototype st) of Some s \<Rightarrow> Str s | None \<Rightarrow> Undefined)
          else if k = ''receiver'' then
            (case own_receiver (object_prototype st) of Some s \<Rightarrow> Str s | None \<Rightarrow> Undefined)
          else Undefined)"

text \<open>\<open>!rooms[roomId]\<close>: objects are truthy, \<open>undefined\<close> and the empty string are not.\<close>

fun falsy :: "found \<Rightarrow> bool" where
  "falsy Undefined = True"
| "falsy (Str s) = (s = [])"
| "falsy x = False"

text \<open>
  \<open>x.sender\<close> and \<open>x.receiver\<close> for the value found: a room has both properties itself; any
  other value has them if an earlier join wrote them there, and else inherits them from the
  prototype (a string always does).
\<close>

definition inherit :: "string option \<Rightarrow> string option \<Rightarrow> string option" where
  "inherit own proto = (case own of Some v \<Rightarrow> Some v | None \<Rightarrow> proto)"

fun get_sender :: "server \<Rightarrow> found \<Rightarrow> string option" where
  "get_sender st (Own r) = sender r"
| "get_sender st ObjectPrototype = own_sender (object_prototype st)"
| "get_sender st (BuiltinFunction k) =
     inherit (own_sender (builtin_own st k)) (own_sender (object_prototype st))"
| "get_sender st (Str s) = own_sender (object_prototype st)"
| "get_sender st Undefined = None"

fun get_receiver :: "server \<Rightarrow> found \<Rightarrow> string option" where
  "get_receiver st (Own r) = receiver r"
| "get_receiver st ObjectPrototype = own_receiver (object_prototype st)"
| "get_receiver st (BuiltinFunction k) =
     inherit (own_receiver (builtin_own st k)) (own_receiver (object_prototype st))"
| "get_receiver st (Str s) = own_receiver (object_prototype st)"
| "get_receiver st Undefined = None"

text \<open>
  \<open>rooms[roomId].sender = socket.id\<close> and \<open>rooms[roomId].receiver = socket.id\<close>: the write goes
  to the object found; on a string it does nothing (the module is not in strict mode).
\<close>

fun set_sender :: "string \<Rightarrow> conn_id \<Rightarrow> found \<Rightarrow> server \<Rightarrow> server" where
  "set_sender roomId sock (Own r) st = st\<lparr>rooms := obj_set roomId (r\<lparr>sender := Some sock\<rparr>) (rooms st)\<rparr>"
| "set_sender roomId sock ObjectPrototype st =
     st\<lparr>object_prototype := (object_prototype st)\<lparr>own_sender := Some sock\<rparr>\<rparr>"
| "set_sender roomId sock (BuiltinFunction k) st =
     st\<lparr>builtin_own := (builtin_own st)(k := (builtin_own st k)\<lparr>own_sender := Some sock\<rparr>)\<rparr>"
| "set_sender roomId sock x st = st"

fun set_receiver :: "string \<Rightarrow> conn_id \<Rightarrow> found \<Rightarrow> server \<Rightarrow> server" where
  "set_receiver roomId sock (Own r) st = st\<lparr>rooms := obj_set roomId (r\<lparr>receiver := Some sock\<rparr>) (rooms st)\<rparr>"
| "set_receiver roomId sock ObjectPrototype st =
     st\<lparr>object_prototype := (object_prototype st)\<lparr>own_receiver := Some sock\<rparr>\<rparr>"
| "set_receiver roomId sock (BuiltinFunction k) st =
     st\<lparr>builtin_own := (builtin_own st)(k := (builtin_own st k)\<lparr>own_receiver := Some sock\<rparr>)\<rparr>"
| "set_receiver roomId sock x st = st"

text \<open>
  \<open>socket.on('join-room', (roomId) => ...)\<close>. In the second branch the sender read is truthy,
  so \<open>io.to(rooms[roomId].sender)\<close> addresses the identifier it holds.
\<close>

definition empty_room :: room where
  "empty_room = \<lparr>sender = None, receiver = None, r_fileId = None\<rparr>"

definition join_room :: "conn_id \<Rightarrow> string \<Rightarrow> server \<Rightarrow> emission list \<times> server" where
  "join_room sock roomId st0 =
     (let st = (if falsy (rooms_get st0 roomId)
                then st0\<lparr>rooms := obj_set roomId empty_room (rooms st0)\<rparr> else st0);
          x = rooms_get st roomId
      in if \<not> truthy (get_sender st x) then
           ([(ToSocket sock, RoomJoined Sender roomId)], set_sender roomId sock x st)
         else if \<not> truthy (get_receiver st x) then
           ([(ToSocket sock, RoomJoined Receiver roomId),
             (IoTo (case get_sender st x of Some s \<Rightarrow> s | None \<Rightarrow> []), UserJoined sock)],
            set_receiver roomId sock x st)
         else ([(ToSocket sock, RoomFull)], st))"

text \<open>\<open>socket.on('start-transfer', (data) => ...)\<close> with \<open>data = {fileId, receiverId}\<close>.\<close>

definition start_transfer :: "conn_id \<Rightarrow> string \<Rightarrow> string \<Rightarrow> server \<Rightarrow> emission list \<times> server" where
  "start_transfer sock fid rid st =
     (let path = path_join [uploadsDir st, fid] in
      case lookup (files st) path of
        None \<Rightarrow> ([(ToSocket sock, TransferError ''File not found on server'')], st)
      | Some nd \<Rightarrow>
          (let info = \<lparr>info_id = fid, info_name = display_name path,
                       info_size = node_size nd, info_type = getMimeType path\<rparr>;
               t = \<lparr>fileId = fid, receiverId = rid, filePath = path,
                    sentBytes = 0, totalBytes = node_size nd\<rparr>;
               s = \<lparr>socket_id = sock, c_fileId = fid, c_receiverId = rid, c_filePath = path,
                    stats_size = node_size nd, unread = node_bytes nd, regular = is_file nd,
                    closed = False\<rparr>
           in ([(IoTo rid, TransferStarted info)],
               st\<lparr>activeTransfers := (activeTransfers st)(sock \<mapsto> t),
                  streams := streams st @ [s]\<rparr>)))"

text \<open>
  \<open>readStream.on('data', (chunk) => ...)\<close>. The payload of \<open>file-chunk\<close> is built first, and
  building it reads \<open>activeTransfers[socket.id].sentBytes\<close>: with no record under the
  connection's key that read throws before anything is emitted.
\<close>

definition on_data :: "stream \<Rightarrow> byte list \<Rightarrow> server \<Rightarrow> outcome" where
  "on_data s chunk st =
     (case activeTransfers st (socket_id s) of
        None \<Rightarrow> Inl TypeError
      | Some t \<Rightarrow>
          (let e1 = (IoTo (c_receiverId s),
                     FileChunk (c_fileId s) chunk (progress (sentBytes t) (stats_size s)));
               t' = t\<lparr>sentBytes := sentBytes t + length chunk\<rparr>;
               e2 = (ToSocket (socket_id s), TransferProgress (progress (sentBytes t') (stats_size s)))
           in Inr ([e1, e2], st\<lparr>activeTransfers := (activeTransfers st)(socket_id s \<mapsto> t')\<rparr>)))"

text \<open>\<open>readStream.on('end', ...)\<close>: two notices and a timer that will delete the file.\<close>

definition on_end :: "stream \<Rightarrow> server \<Rightarrow> emission list \<times> server" where
  "on_end s st =
     ([(ToSocket (socket_id s), TransferComplete), (IoTo (c_receiverId s), TransferComplete)],
      st\<lparr>timers := timers st @ [c_filePath s]\<rparr>)"

text \<open>\<open>readStream.on('error', ...)\<close>.\<close>

definition on_error :: "stream \<Rightarrow> server \<Rightarrow> emission list \<times> server" where
  "on_error s st =
     ([(ToSocket (socket_id s), TransferError ''Error reading file''),
       (IoTo (c_receiverId s), TransferError ''Error transferring file'')],
      st\<lparr>activeTransfers := (activeTransfers st)(socket_id s := None)\<rparr>)"

text \<open>
  The timer callback: \<open>if (fs.existsSync(filePath)) fs.unlinkSync(filePath)\<close>, with the error
  of unlinking a directory caught and logged.
\<close>

definition on_timeout :: "string \<Rightarrow> server \<Rightarrow> emission list \<times> server" where
  "on_timeout path st =
     (case lookup (files st) path of
        Some (File content) \<Rightarrow> ([], st\<lparr>files := (files st)(path := None)\<rparr>)
      | _ \<Rightarrow> ([], st))"

text \<open>
  \<open>socket.on('disconnect', ...)\<close>. The loop over \<open>rooms\<close> deletes the first room that holds the
  connection in either slot and stops. After the rooms of the table it also visits the names
  \<open>sender\<close> and \<open>receiver\<close> when a join has left them on the prototype; there \<open>delete\<close> finds
  no key of the table to remove, so the table is as the rooms before left it.
\<close>

definition occupies :: "conn_id \<Rightarrow> room \<Rightarrow> bool" where
  "occupies sock r = (sender r = Some sock \<or> receiver r = Some sock)"

fun cleanup_rooms :: "conn_id \<Rightarrow> (string \<times> room) list \<Rightarrow> (string \<times> room) list" where
  "cleanup_rooms sock [] = []"
| "cleanup_rooms sock ((roomId, r) # rs) =
     (if occupies sock r then rs else (roomId, r) # cleanup_rooms sock rs)"

definition disconnect :: "conn_id \<Rightarrow> server \<Rightarrow> emission list \<times> server" where
  "disconnect sock st =
     (case activeTransfers st sock of
        None \<Rightarrow> ([], st\<lparr>rooms := cleanup_rooms sock (rooms st)\<rparr>)
      | Some t \<Rightarrow>
          ([(IoTo (receiverId t), TransferCancelled)],
           st\<lparr>activeTransfers := (activeTransfers st)(sock := None),
              rooms := cleanup_rooms sock (rooms st)\<rparr>))"

subsection \<open>Runs of the server\<close>

text \<open>
  A read stream of \<open>fs.createReadStream(filePath)\<close> delivers the file in chunks of its default
  buffer size, 64 KiB (the \<open>chunkSize\<close> constant of the source has the same value and is not
  used), then ends; it may fail at any point before it ends. A stream opened on a directory
  delivers nothing and can only fail.
\<close>

definition highWaterMark :: nat where
  "highWaterMark = 65536"

datatype event =
    JoinRoom conn_id string
  | StartTransfer conn_id string string
  | StreamData nat
  | StreamEnd nat
  | StreamError nat
  | Timeout string
  | Disconnect conn_id

definition step :: "server \<Rightarrow> event \<Rightarrow> outcome" where
  "step st ev =
     (case ev of
        JoinRoom sock roomId \<Rightarrow> Inr (join_room sock roomId st)
      | StartTransfer sock fid rid \<Rightarrow> Inr (start_transfer sock fid rid st)
      | StreamData i \<Rightarrow>
          (if i < length (streams st) \<and> \<not> closed (streams st ! i) \<and> unread (streams st ! i) \<noteq> []
           then (let s = streams st ! i
                 in on_data s (take highWaterMark (unread s))
                      (st\<lparr>streams := (streams st)[i := s\<lparr>unread := drop highWaterMark (unread s)\<rparr>]\<rparr>))
           else Inl NotEnabled)
      | StreamEnd i \<Rightarrow>
          (if i < length (streams st) \<and> \<not> closed (streams st ! i) \<and> regular (streams st ! i)
              \<and> unread (streams st ! i) = []
           then (let s = streams st ! i
                 in Inr (on_end s (st\<lparr>streams := (streams st)[i := s\<lparr>closed := True\<rparr>]\<rparr>)))
           else Inl NotEnabled)
      | StreamError i \<Rightarrow>
          (if i < length (streams st) \<and> \<not> closed (streams st ! i)
           then (let s = streams st ! i
                 in Inr (on_error s (st\<lparr>streams := (streams st)[i := s\<lparr>closed := True\<rparr>]\<rparr>)))
           else Inl NotEnabled)
      | Timeout path \<Rightarrow>
          (if path \<in> set (timers st)
           then Inr (on_timeout path (st\<lparr>timers := remove1 path (timers st)\<rparr>))
           else Inl NotEnabled)
      | Disconnect sock \<Rightarrow> Inr (disconnect sock st))"

text \<open>
  A run handles the events in order and stops at the first failure. Its trace pairs every
  event handled with what its handler emitted.
\<close>

fun exec :: "server \<Rightarrow> event list \<Rightarrow> (event \<times> emission list) list \<times> (failure + server)" where
  "exec st [] = ([], Inr st)"
| "exec st (ev # evs) =
     (case step st ev of
        Inl f \<Rightarrow> ([], Inl f)
      | Inr (out, st') \<Rightarrow> (case exec st' evs of (tr, res) \<Rightarrow> ((ev, out) # tr, res)))"

text \<open>What the \<open>data\<close> events of stream \<open>i\<close> emitted in a trace, in order.\<close>

definition chunk_events :: "nat \<Rightarrow> (event \<times> emission list) list \<Rightarrow> emission list" where
  "chunk_events i tr = concat (map snd (filter (\<lambda>x. fst x = StreamData i) tr))"

text \<open>The progress values carried by a list of emissions, and the lengths of the chunks.\<close>

fun progress_values :: "emission list \<Rightarrow> jsnum list" where
  "progress_values [] = []"
| "progress_values ((d, FileChunk f chunk p) # es) = p # progress_values es"
| "progress_values ((d, TransferProgress p) # es) = p # progress_values es"
| "progress_values (e # es) = progress_values es"

fun chunk_lengths :: "emission list \<Rightarrow> nat list" where
  "chunk_lengths [] = []"
| "chunk_lengths ((d, FileChunk f chunk p) # es) = length chunk # chunk_lengths es"
| "chunk_lengths (e # es) = chunk_lengths es"

text \<open>Whether the connection starts a transfer somewhere in a list of events.\<close>

fun starts :: "conn_id \<Rightarrow> event \<Rightarrow> bool" where
  "starts sock (StartTransfer c f r) = (c = sock)"
| "starts sock ev = False"

subsection \<open>Reading outcomes; example states and runs\<close>

text \<open>What a handler emitted; nothing when it failed.\<close>

definition emitted_by :: "outcome \<Rightarrow> emission list" where
  "emitted_by res = (case res of Inl f \<Rightarrow> [] | Inr (out, st) \<Rightarrow> out)"

text \<open>
  The file of the upload store that an identifier names. The upload route saves every file
  in the uploads directory, under a name of its own making that has no separator
  (\<open>uniqueId-originalname\<close>), and answers with that name as the file's identifier: a stored
  file is a regular file that lies in the uploads directory under the identifier itself.
\<close>

definition stored :: "server \<Rightarrow> string \<Rightarrow> byte list option" where
  "stored st fid =
     (if fid = [] \<or> CHR ''/'' \<in> set fid \<or> fid = ''.'' \<or> fid = ''..'' then None
      else (case files st (uploadsDir st @ CHR ''/'' # fid) of
              Some (File content) \<Rightarrow> Some content
            | _ \<Rightarrow> None))"

text \<open>
  The server right after start-up, in a directory whose name has a hyphen: the module's
  directory holds \<open>server.js\<close> and the uploads directory, which is empty.
\<close>

definition initial :: server where
  "initial =
     \<lparr>rooms = [], activeTransfers = Map.empty,
      object_prototype = no_slots, builtin_own = (\<lambda>k. no_slots),
      dirname = ''/srv/language-translator/backend'',
      files = [''/srv/language-translator/backend'' \<mapsto> Dir 4096,
               ''/srv/language-translator/backend/server.js'' \<mapsto> File [47, 47, 10],
               ''/srv/language-translator/backend/uploads'' \<mapsto> Dir 4096],
      streams = [], timers = []\<rparr>"

text \<open>
  Three rooms in the order the table enumerates them (the array index \<open>17\<close> first);
  connection \<open>A\<close> sits in two of them.
\<close>

definition three_rooms :: "(string \<times> room) list" where
  "three_rooms =
     [(''17'', \<lparr>sender = Some ''X'', receiver = None, r_fileId = None\<rparr>),
      (''blue'', \<lparr>sender = Some ''A'', receiver = Some ''B'', r_fileId = None\<rparr>),
      (''red'', \<lparr>sender = Some ''C'', receiver = Some ''A'', r_fileId = None\<rparr>)]"

text \<open>The same with one uploaded file of 100000 bytes, which a stream reads in two chunks.\<close>

definition store_100k :: server where
  "store_100k =
     initial\<lparr>files := (files initial)
       (''/srv/language-translator/backend/uploads/1-a.bin'' \<mapsto> File (replicate 100000 0))\<rparr>"

text \<open>
  The state after \<open>A\<close> and \<open>B\<close> have joined room \<open>4711\<close>, \<open>A\<close> has started the transfer of
  that file to \<open>B\<close>, and the first chunk has been sent.
\<close>

definition mid_transfer :: server where
  "mid_transfer =
     store_100k
      \<lparr>rooms := [(''4711'', \<lparr>sender = Some ''A'', receiver = Some ''B'', r_fileId = None\<rparr>)],
       activeTransfers := [''A'' \<mapsto> \<lparr>fileId = ''1-a.bin'', receiverId = ''B'',
         filePath = ''/srv/language-translator/backend/uploads/1-a.bin'',
         sentBytes = 65536, totalBytes = 100000\<rparr>],
       streams := [\<lparr>socket_id = ''A'', c_fileId = ''1-a.bin'', c_receiverId = ''B'',
         c_filePath = ''/srv/language-translator/backend/uploads/1-a.bin'', stats_size = 100000,
         unread = replicate 34464 0, regular = True, closed = False\<rparr>]\<rparr>"

text \<open>The state right after \<open>A\<close> has started the transfer of a file of three bytes to \<open>B\<close>.\<close>

definition store_3 :: server where
  "store_3 =
     initial\<lparr>files := (files initial)
       (''/srv/language-translator/backend/uploads/1-a.txt'' \<mapsto> File [1, 2, 3])\<rparr>"

definition fresh_transfer :: server where
  "fresh_transfer =
     store_3
      \<lparr>activeTransfers := [''A'' \<mapsto> \<lparr>fileId = ''1-a.txt'', receiverId = ''B'',
         filePath = ''/srv/language-translator/backend/uploads/1-a.txt'',
         sentBytes = 0, totalBytes = 3\<rparr>],
       streams := [\<lparr>socket_id = ''A'', c_fileId = ''1-a.txt'', c_receiverId = ''B'',
         c_filePath = ''/srv/language-translator/backend/uploads/1-a.txt'', stats_size = 3,
         unread = [1, 2, 3], regular = True, closed = False\<rparr>]\<rparr>"

text \<open>The server with the uploaded file of the specification's example.\<close>

definition store_photo :: server where
  "store_photo =
     initial\<lparr>files := (files initial)
       (''/srv/language-translator/backend/uploads/1699999999999-42-photo.png'' \<mapsto> File [1, 2, 3])\<rparr>"




section \<open>Auxiliary facts\<close>

subsection \<open>Rounding to doubles\<close>

lemma bitlen_bounds: "0 < n \<Longrightarrow> 2 ^ (bitlen n - 1) \<le> n \<and> n < 2 ^ bitlen n"
proof (induction n rule: bitlen.induct)
  case (1 n)
  show ?case
  proof (cases "n div 2 = 0")
    case True
    with 1 have "n = 1" by (simp add: div_eq_0_iff)
    then show ?thesis by (simp add: bitlen.simps)
  next
    case False
    with 1 have IH: "2 ^ (bitlen (n div 2) - 1) \<le> n div 2" "n div 2 < 2 ^ bitlen (n div 2)"
      by auto
    from False have pos: "0 < bitlen (n div 2)" by (subst bitlen.simps) simp
    have eq: "bitlen n = Suc (bitlen (n div 2))" using 1(2) by (subst bitlen.simps) simp
    from pos obtain k where k: "bitlen (n div 2) = Suc k" by (cases "bitlen (n div 2)") auto
    from IH k have "2 * 2 ^ k \<le> n" "n < 2 * 2 ^ Suc k" by auto
    then show ?thesis by (simp add: eq k)
  qed
qed

lemma powi_two_pos: "(0::rat) < 2 powi k"
  by (simp add: power_int_def)

lemma powi_two_mono: "a \<le> b \<Longrightarrow> (2::rat) powi a \<le> 2 powi b"
  by (rule power_int_increasing) simp_all

lemma powi_two_strict: "a < b \<Longrightarrow> (2::rat) powi a < 2 powi b"
  by (rule power_int_strict_increasing) simp_all

lemma quotient_pos:
  assumes "0 < x" "quotient_of x = (p, q)"
  shows "0 < p" "0 < q" "x = of_int p / of_int q"
proof -
  show q: "0 < q" using assms(2) by (rule quotient_of_denom_pos)
  show x: "x = of_int p / of_int q" using assms(2) by (rule quotient_of_div)
  show "0 < p" using assms(1) q x by (simp add: zero_less_divide_iff)
qed

lemma ratio_bounds:
  fixes p q :: int
  assumes "0 < p" "0 < q"
  defines "k \<equiv> int (bitlen (nat p)) - int (bitlen (nat q))"
  shows "(2::rat) powi (k - 1) < of_int p / of_int q" "of_int p / of_int q < (2::rat) powi (k + 1)"
proof -
  let ?a = "bitlen (nat p)" and ?b = "bitlen (nat q)"
  from assms have bp: "2 ^ (?a - 1) \<le> nat p" "nat p < 2 ^ ?a"
    using bitlen_bounds[of "nat p"] by auto
  from assms have bq: "2 ^ (?b - 1) \<le> nat q" "nat q < 2 ^ ?b"
    using bitlen_bounds[of "nat q"] by auto
  have apos: "0 < ?a" using assms(1) by (subst bitlen.simps) simp
  have bpos: "0 < ?b" using assms(2) by (subst bitlen.simps) simp
  have p1: "(2::rat) ^ (?a - 1) \<le> of_int p"
  proof -
    have "(of_nat (2 ^ (?a - 1)) :: rat) \<le> of_nat (nat p)" using bp(1) by (simp only: of_nat_le_iff)
    then show ?thesis using assms(1) by simp
  qed
  have p2: "of_int p < (2::rat) ^ ?a"
  proof -
    have "(of_nat (nat p) :: rat) < of_nat (2 ^ ?a)" using bp(2) by (simp only: of_nat_less_iff)
    then show ?thesis using assms(1) by simp
  qed
  have q1: "(2::rat) ^ (?b - 1) \<le> of_int q"
  proof -
    have "(of_nat (2 ^ (?b - 1)) :: rat) \<le> of_nat (nat q)" using bq(1) by (simp only: of_nat_le_iff)
    then show ?thesis using assms(2) by simp
  qed
  have q2: "of_int q < (2::rat) ^ ?b"
  proof -
    have "(of_nat (nat q) :: rat) < of_nat (2 ^ ?b)" using bq(2) by (simp only: of_nat_less_iff)
    then show ?thesis using assms(2) by simp
  qed
  have qpos: "(0::rat) < of_int q" using assms(2) by simp
  have e1: "(2::rat) powi (k - 1) = 2 ^ (?a - 1) / 2 ^ ?b"
  proof -
    have "k - 1 = int (?a - 1) - int ?b" using apos by (simp add: k_def)
    then show ?thesis by (simp add: power_int_diff)
  qed
  have e2: "(2::rat) powi (k + 1) = 2 ^ ?a / 2 ^ (?b - 1)"
  proof -
    have "k + 1 = int ?a - int (?b - 1)" using bpos by (simp add: k_def)
    then show ?thesis by (simp add: power_int_diff)
  qed

  have ppos: "(0::rat) \<le> of_int p" using assms(1) by simp
  have "(2::rat) ^ (?a - 1) / 2 ^ ?b < of_int p / of_int q"
    by (rule frac_less2) (use p1 q2 qpos in simp_all)
  then show "(2::rat) powi (k - 1) < of_int p / of_int q" by (simp only: e1)
  have "of_int p / of_int q < (2::rat) ^ ?a / 2 ^ (?b - 1)"
    by (rule frac_less) (use p2 q1 ppos in simp_all)
  then show "of_int p / of_int q < (2::rat) powi (k + 1)" by (simp only: e2)
qed

lemma ilog2_bounds:
  assumes "0 < x"
  shows "2 powi ilog2 x \<le> x \<and> x < 2 powi (ilog2 x + 1)"
proof -
  obtain p q where pq: "quotient_of x = (p, q)" by (cases "quotient_of x")
  note f = quotient_pos[OF assms pq]
  define k where "k = int (bitlen (nat p)) - int (bitlen (nat q))"
  have b: "(2::rat) powi (k - 1) < x" "x < (2::rat) powi (k + 1)"
    using ratio_bounds[OF f(1) f(2)] f(3) by (simp_all add: k_def)
  have il: "ilog2 x = (if 2 powi k \<le> x then k else k - 1)"
    by (simp add: ilog2_def pq k_def Let_def)
  show ?thesis
  proof (cases "2 powi k \<le> x")
    case True
    then show ?thesis using b il by simp
  next
    case False
    then show ?thesis using b il by simp
  qed
qed

lemma ilog2_unique:
  assumes "0 < x" "2 powi e \<le> x" "x < 2 powi (e + 1)"
  shows "ilog2 x = e"
proof -
  from ilog2_bounds[OF assms(1)]
  have b: "2 powi ilog2 x \<le> x" "x < 2 powi (ilog2 x + 1)" by simp_all
  have "\<not> e + 1 \<le> ilog2 x"
  proof
    assume "e + 1 \<le> ilog2 x"
    then have "(2::rat) powi (e + 1) \<le> 2 powi ilog2 x" by (rule powi_two_mono)
    with b(1) assms(3) show False by simp
  qed
  moreover have "\<not> ilog2 x + 1 \<le> e"
  proof
    assume "ilog2 x + 1 \<le> e"
    then have "(2::rat) powi (ilog2 x + 1) \<le> 2 powi e" by (rule powi_two_mono)
    with b(2) assms(2) show False by simp
  qed
  ultimately show ?thesis by simp
qed

lemma ilog2_mono:
  assumes "0 < x" "x \<le> y"
  shows "ilog2 x \<le> ilog2 y"
proof (rule ccontr)
  assume "\<not> ilog2 x \<le> ilog2 y"
  then have "ilog2 y + 1 \<le> ilog2 x" by simp
  then have "(2::rat) powi (ilog2 y + 1) \<le> 2 powi ilog2 x" by (rule powi_two_mono)
  moreover have "0 < y" using assms by simp
  ultimately show False
    using ilog2_bounds[OF assms(1)] ilog2_bounds[of y] assms(2) by simp
qed

lemma rhe_cases: "round_half_even y = \<lfloor>y\<rfloor> \<or> round_half_even y = \<lfloor>y\<rfloor> + 1"
  by (simp add: round_half_even_def Let_def)

lemma rhe_of_int [simp]: "round_half_even (of_int n) = n"
  by (simp add: round_half_even_def Let_def)

lemma rhe_ge:
  assumes "of_int n \<le> y"
  shows "n \<le> round_half_even y"
proof -
  from assms have "n \<le> \<lfloor>y\<rfloor>" by (simp add: le_floor_iff)
  then show ?thesis using rhe_cases[of y] by auto
qed

lemma rhe_le:
  assumes "y \<le> of_int n"
  shows "round_half_even y \<le> n"
proof (cases "y = of_int n")
  case True
  then show ?thesis by simp
next
  case False
  with assms have "y < of_int n" by simp
  then have "\<lfloor>y\<rfloor> < n" by (simp add: floor_less_iff)
  then show ?thesis using rhe_cases[of y] by auto
qed

lemma rhe_mono:
  assumes "a \<le> b"
  shows "round_half_even a \<le> round_half_even b"
proof (cases "\<lfloor>a\<rfloor> = \<lfloor>b\<rfloor>")
  case True
  have "a - of_int \<lfloor>a\<rfloor> \<le> b - of_int \<lfloor>a\<rfloor>" using assms by simp
  then show ?thesis
    by (auto simp: round_half_even_def Let_def True)
next
  case False
  from assms have "\<lfloor>a\<rfloor> \<le> \<lfloor>b\<rfloor>" by (rule floor_mono)
  with False have "\<lfloor>a\<rfloor> + 1 \<le> \<lfloor>b\<rfloor>" by simp
  then show ?thesis using rhe_cases[of a] rhe_cases[of b] by auto
qed

lemma fl_nonneg:
  assumes "0 \<le> x"
  shows "0 \<le> fl x"
proof (cases "x = 0")
  case True
  then show ?thesis by (simp add: fl_def)
next
  case False
  with assms have x: "0 < x" by simp
  define e where "e = ilog2 x - 52"
  have "0 \<le> x / 2 powi e" using x powi_two_pos[of e] by (simp add: divide_nonneg_pos)
  then have "(of_int 0 :: rat) \<le> x / 2 powi e" by simp
  then have "0 \<le> round_half_even (x / 2 powi e)" by (rule rhe_ge)
  then show ?thesis using x powi_two_pos[of e] by (simp add: fl_def fl_pos_def e_def Let_def)
qed

text \<open>A positive number and its rounding lie in the same binade, ends included.\<close>

lemma fl_binade:
  assumes "0 < x"
  shows "2 powi ilog2 x \<le> fl x \<and> fl x \<le> 2 powi (ilog2 x + 1)"
proof -
  define e where "e = ilog2 x - 52"
  define y where "y = x / 2 powi e"
  have pe: "(0::rat) < 2 powi e" by (rule powi_two_pos)
  have flx: "fl x = of_int (round_half_even y) * 2 powi e"
    using assms by (simp add: fl_def fl_pos_def e_def y_def Let_def)
  from ilog2_bounds[OF assms] have b: "2 powi ilog2 x \<le> x" "x < 2 powi (ilog2 x + 1)" by simp_all
  have s1: "(2::rat) powi ilog2 x = 2 ^ 52 * 2 powi e"
    by (simp add: e_def power_int_diff)
  have s2: "(2::rat) powi (ilog2 x + 1) = 2 ^ 53 * 2 powi e"
    by (simp add: e_def power_int_diff power_int_add)
  have y1: "(of_int (2 ^ 52) :: rat) \<le> y"
    using b(1) pe by (simp add: y_def s1 pos_le_divide_eq)
  have y2: "y \<le> (of_int (2 ^ 53) :: rat)"
    using b(2) pe by (simp add: y_def s2 pos_divide_le_eq)
  from y1 have m1: "2 ^ 52 \<le> round_half_even y" by (rule rhe_ge)
  from y2 have m2: "round_half_even y \<le> 2 ^ 53" by (rule rhe_le)
  have "(2::rat) ^ 52 * 2 powi e \<le> of_int (round_half_even y) * 2 powi e"
    using m1 pe by (simp add: of_int_le_iff[symmetric] del: of_int_le_iff)
  moreover have "of_int (round_half_even y) * 2 powi e \<le> (2::rat) ^ 53 * 2 powi e"
    using m2 pe by (simp add: of_int_le_iff[symmetric] del: of_int_le_iff)
  ultimately show ?thesis by (simp only: flx s1 s2)
qed

lemma fl_mono:
  assumes "0 \<le> x" "x \<le> y"
  shows "fl x \<le> fl y"
proof (cases "x = 0")
  case True
  then show ?thesis using fl_nonneg[of y] assms by (simp add: fl_def)
next
  case False
  then have x: "0 < x" and y: "0 < y" using assms by simp_all
  note assms = assms(2)
  show ?thesis
  proof (cases "ilog2 x = ilog2 y")
    case True
    define e where "e = ilog2 y - 52"
    have pe: "(0::rat) < 2 powi e" by (rule powi_two_pos)
    have "x / 2 powi e \<le> y / 2 powi e" using assms pe by (simp add: divide_right_mono)
    then have "round_half_even (x / 2 powi e) \<le> round_half_even (y / 2 powi e)" by (rule rhe_mono)
    then have "(of_int (round_half_even (x / 2 powi e)) :: rat) * 2 powi e
        \<le> of_int (round_half_even (y / 2 powi e)) * 2 powi e"
      using pe by simp
    then show ?thesis using x y by (simp add: fl_def fl_pos_def True e_def Let_def)
  next
    case False
    with ilog2_mono[OF x assms] have "ilog2 x + 1 \<le> ilog2 y" by simp
    then have "(2::rat) powi (ilog2 x + 1) \<le> 2 powi ilog2 y" by (rule powi_two_mono)
    then show ?thesis using fl_binade[OF x] fl_binade[OF y] by simp
  qed
qed

lemma fl_one: "fl 1 = 1"
  by (simp add: fl_def fl_pos_def ilog2_def round_half_even_def bitlen.simps)

lemma fl_hundred: "fl 100 = 100"
  by (simp add: fl_def fl_pos_def ilog2_def round_half_even_def bitlen.simps)

lemma rhe_eqI:
  assumes "of_int m - 1 / 2 < y" "y < of_int m + 1 / 2"
  shows "round_half_even y = m"
proof (cases "of_int m \<le> y")
  case True
  with assms(2) have f: "\<lfloor>y\<rfloor> = m" by (intro floor_unique) simp_all
  have "y - of_int m < 1 / 2" using assms(2) by simp
  then show ?thesis by (simp add: round_half_even_def Let_def f)
next
  case False
  with assms(1) have f: "\<lfloor>y\<rfloor> = m - 1" by (intro floor_unique) simp_all
  have "1 / 2 < y - of_int (m - 1)" using assms(1) by simp
  then show ?thesis by (simp add: round_half_even_def Let_def f)
qed

lemma fl_eqI:
  assumes "0 < x" "2 powi e \<le> x" "x < 2 powi (e + 1)"
    and "of_int m - 1 / 2 < x / 2 powi (e - 52)" "x / 2 powi (e - 52) < of_int m + 1 / 2"
  shows "fl x = of_int m * 2 powi (e - 52)"
proof -
  have "ilog2 x = e" using assms(1-3) by (rule ilog2_unique)
  moreover have "round_half_even (x / 2 powi (e - 52)) = m" using assms(4,5) by (rule rhe_eqI)
  ultimately show ?thesis using assms(1) by (simp add: fl_def fl_pos_def Let_def)
qed

lemma progress_eqI:
  assumes "0 < tot" "fl (of_nat sent / of_nat tot) = a" "fl (a * 100) = b"
    and "of_int k \<le> b + 1 / 2" "b + 1 / 2 < of_int k + 1"
  shows "progress sent tot = Num (min 100 k)"
proof -
  have "\<lfloor>b + 1 / 2\<rfloor> = k" using assms(4,5) by (intro floor_unique) simp_all
  then show ?thesis using assms(1-3) by (simp add: progress_def percent_def Math_round_def)
qed

lemma percent_bounds: "0 \<le> percent sent tot \<and> percent sent tot \<le> 100"
proof -
  have "(0::rat) \<le> of_nat sent / of_nat tot" by simp
  then have "0 \<le> fl (of_nat sent / of_nat tot) * 100" by (simp add: fl_nonneg)
  then have "0 \<le> fl (fl (of_nat sent / of_nat tot) * 100)" by (rule fl_nonneg)
  then have "0 \<le> Math_round (fl (fl (of_nat sent / of_nat tot) * 100))"
    by (simp add: Math_round_def)
  then show ?thesis by (simp add: percent_def)
qed

lemma percent_mono:
  assumes "a \<le> b"
  shows "percent a tot \<le> percent b tot"
proof -
  have "(of_nat a :: rat) / of_nat tot \<le> of_nat b / of_nat tot"
    using assms by (simp add: divide_right_mono)
  then have "fl (of_nat a / of_nat tot) \<le> fl (of_nat b / of_nat tot)"
    by (intro fl_mono) simp_all
  then have "fl (of_nat a / of_nat tot) * 100 \<le> fl (of_nat b / of_nat tot) * 100" by simp
  moreover have "0 \<le> fl (of_nat a / of_nat tot) * 100" by (simp add: fl_nonneg)
  ultimately have "fl (fl (of_nat a / of_nat tot) * 100) \<le> fl (fl (of_nat b / of_nat tot) * 100)"
    by (intro fl_mono)
  then have "Math_round (fl (fl (of_nat a / of_nat tot) * 100))
      \<le> Math_round (fl (fl (of_nat b / of_nat tot) * 100))"
    unfolding Math_round_def by (intro floor_mono) simp
  then show ?thesis by (simp add: percent_def)
qed

lemma Math_round_of_int: "Math_round (of_int n) = n"
  unfolding Math_round_def by (rule floor_unique) simp_all

lemma percent_zero: "percent 0 tot = 0"
  using Math_round_of_int[of 0] by (simp add: percent_def fl_def)

lemma percent_all: "0 < tot \<Longrightarrow> percent tot tot = 100"
  using Math_round_of_int[of 100] by (simp add: percent_def fl_one fl_hundred)

lemma percent_full:
  assumes "0 < tot" "tot \<le> sent"
  shows "percent sent tot = 100"
  using percent_mono[OF assms(2), of tot] percent_all[OF assms(1)] percent_bounds[of sent tot]
  by simp

lemma progress_full:
  assumes "0 < sent" "tot \<le> sent"
  shows "progress sent tot = Num 100"
  using assms by (simp add: progress_def percent_full)

text \<open>
  Three values of the percentage, from the exponent and the 53-bit significand of each
  rounded intermediate result. The second is a tie of the exact quotient that the doubles break
  downwards.
\<close>

lemma progress_65536: "progress 65536 100000 = Num 66"
proof -
  have a: "fl (of_nat 65536 / of_nat 100000) = 5902958103587057 / 2 ^ 53"
    using fl_eqI[of "65536 / 100000" "- 1" 5902958103587057]
    by (simp add: power_int_minus)
  have b: "fl (5902958103587057 / 2 ^ 53 * 100) = 4611686018427388 / 2 ^ 46"
    using fl_eqI[of "5902958103587057 / 2 ^ 53 * 100" 6 4611686018427388]
    by (simp add: power_int_minus)
  show ?thesis
    using progress_eqI[OF _ a b, of 66] by simp
qed


lemma progress_29: "progress 29 200 = Num 14"
proof -
  have a: "fl (of_nat 29 / of_nat 200) = 5224175567749775 / 2 ^ 55"
    using fl_eqI[of "29 / 200" "- 3" 5224175567749775]
    by (simp add: power_int_minus)
  have b: "fl (5224175567749775 / 2 ^ 55 * 100) = 8162774324609023 / 2 ^ 49"
    using fl_eqI[of "5224175567749775 / 2 ^ 55 * 100" 3 8162774324609023]
    by (simp add: power_int_minus)
  show ?thesis
    using progress_eqI[OF _ a b, of 14] by simp
qed

lemma progress_0: "0 < tot \<Longrightarrow> progress 0 tot = Num 0"
  by (simp add: progress_def percent_zero)


subsection \<open>Paths and stored names\<close>

text \<open>\<open>path.join\<close> on the paths the server builds.\<close>

lemma path_join_uploads: "path_join [''/srv/a-b/backend'', ''uploads''] = ''/srv/a-b/backend/uploads''"
  by (simp add: path_join_def normalize_def segments_def norm_step_def)

lemma path_join_empty: "path_join [''/srv/a-b/backend/uploads'', ''''] = ''/srv/a-b/backend/uploads''"
  by (simp add: path_join_def normalize_def segments_def norm_step_def)

lemma path_join_parent: "path_join [''/srv/a-b/backend/uploads'', ''../server.js''] = ''/srv/a-b/backend/server.js''"
  by (simp add: path_join_def normalize_def segments_def norm_step_def)

lemma path_join_trailing: "path_join [''/srv/a-b/backend/uploads'', ''./1-a.txt/''] = ''/srv/a-b/backend/uploads/1-a.txt/''"
  by (simp add: path_join_def normalize_def segments_def norm_step_def)

lemma path_join_climb: "path_join [''/u'', ''../../../x//y/..''] = ''/x''"
  by (simp add: path_join_def normalize_def segments_def norm_step_def)

lemma path_join_relative: "path_join [''a'', ''../../b''] = ''../b'' \<and> path_join ['''', ''''] = ''.'' \<and> path_join [''/'', ''..''] = ''/'' \<and> normalize ''./'' = ''./''"
  by (simp add: path_join_def normalize_def segments_def norm_step_def)

lemma split_not_Nil: "split c s \<noteq> []"
  by (induction s) (auto split: list.splits)

lemma split_append: "split c (a @ c # b) = split c a @ split c b"
proof (induction a)
  case Nil
  then show ?case by simp
next
  case (Cons x xs)
  obtain w ws where sp: "split c xs = w # ws"
    using split_not_Nil[of c xs] by (cases "split c xs") auto
  then show ?case using Cons by simp
qed

lemma split_flat: "c \<notin> set s \<Longrightarrow> split c s = [s]"
  by (induction s) auto

lemma segments_append_flat:
  assumes "fid \<noteq> []" "CHR ''/'' \<notin> set fid"
  shows "segments (u @ CHR ''/'' # fid) = segments u @ [fid]"
  using assms by (simp add: segments_def split_append split_flat)

lemma segments_flat:
  assumes "fid \<noteq> []" "CHR ''/'' \<notin> set fid"
  shows "segments fid = [fid]"
  using assms by (simp add: segments_def split_flat)

lemma join_snoc: "join c (ws @ [w]) = (if ws = [] then w else join c ws @ c # w)"
  by (induction ws rule: join.induct) auto

lemma basename_suffix:
  assumes "fid \<noteq> []" "CHR ''/'' \<notin> set fid" "w = [] \<or> last w = CHR ''/''"
  shows "path_basename (w @ fid) = fid"
proof -
  from assms(1) obtain x xs where r: "rev fid = x # xs" by (cases "rev fid") auto
  have x: "x \<noteq> CHR ''/''" using assms(2) r by (metis list.set_intros(1) set_rev)
  have all: "\<forall>y\<in>set (rev fid). y \<noteq> CHR ''/''" using assms(2) by auto
  have d: "dropWhile (\<lambda>x. x = CHR ''/'') (rev fid @ rev w) = rev fid @ rev w"
    using x by (simp add: r)
  have "takeWhile (\<lambda>x. x \<noteq> CHR ''/'') (rev w) = []"
    using assms(3) by (cases w rule: rev_cases) auto
  moreover have "takeWhile (\<lambda>x. x \<noteq> CHR ''/'') (rev fid @ rev w)
      = rev fid @ takeWhile (\<lambda>x. x \<noteq> CHR ''/'') (rev w)"
    by (rule takeWhile_append2) (use all in blast)
  ultimately show ?thesis by (simp add: path_basename_def d)
qed

text \<open>Joining a stored name to any directory gives a path whose last segment is the name.\<close>

lemma join_stored:
  assumes "fid \<noteq> []" "CHR ''/'' \<notin> set fid" "fid \<noteq> ''.''" "fid \<noteq> ''..''"
  shows "\<exists>w. path_join [u, fid] = w @ fid \<and> (w = [] \<or> last w = CHR ''/'')"
proof -
  have lastf: "last fid \<noteq> CHR ''/''" using assms(1,2) by (metis last_in_set)
  define p where "p = (if u = [] then fid else u @ CHR ''/'' # fid)"
  have pj: "path_join [u, fid] = normalize p"
    using assms(1) by (simp add: path_join_def p_def)
  have pne: "p \<noteq> []" using assms(1) by (simp add: p_def)
  have lastp: "last p \<noteq> CHR ''/''" using lastf assms(1) by (simp add: p_def)
  have segs: "segments p = segments u @ [fid]"
    using assms(1,2) by (simp add: p_def segments_append_flat segments_flat) (simp add: segments_def)
  define ys where "ys = foldl (norm_step (hd p \<noteq> CHR ''/'')) [] (segments u)"
  have f: "foldl (norm_step (hd p \<noteq> CHR ''/'')) [] (segments p) = ys @ [fid]"
    using assms(3,4) by (simp add: segs ys_def norm_step_def)
  have res: "join CHR ''/'' (ys @ [fid]) \<noteq> []"
    using assms(1) by (simp add: join_snoc)
  have n: "normalize p = (if hd p = CHR ''/'' then ''/'' else []) @ join CHR ''/'' (ys @ [fid])"
    using pne lastp res by (simp add: normalize_def Let_def f)
  show ?thesis
  proof (cases "ys = []")
    case True
    then show ?thesis by (intro exI[of _ "if hd p = CHR ''/'' then ''/'' else []"]) (simp add: pj n join_snoc)
  next
    case False
    then show ?thesis
      by (intro exI[of _ "(if hd p = CHR ''/'' then ''/'' else []) @ join CHR ''/'' ys @ ''/''"])
         (simp add: pj n join_snoc)
  qed
qed

lemma basename_stored:
  assumes "fid \<noteq> []" "CHR ''/'' \<notin> set fid" "fid \<noteq> ''.''" "fid \<noteq> ''..''"
  shows "path_basename (path_join [u, fid]) = fid"
proof -
  from join_stored[OF assms, of u] obtain w where
    "path_join [u, fid] = w @ fid" "w = [] \<or> last w = CHR ''/''" by blast
  then show ?thesis using basename_suffix[OF assms(1,2)] by simp
qed

subsection \<open>The room table\<close>

lemma split_first: "c \<notin> set a \<Longrightarrow> split c (a @ c # b) = a # split c b"
  by (induction a) auto

lemma join_split: "join c (split c s) = s"
proof (induction s)
  case Nil
  then show ?case by simp
next
  case (Cons x xs)
  obtain w ws where sp: "split c xs = w # ws"
    using split_not_Nil[of c xs] by (cases "split c xs") auto
  show ?case
  proof (cases "x = c")
    case True
    then show ?thesis using Cons sp by simp
  next
    case False
    then show ?thesis using Cons sp by (cases ws) simp_all
  qed
qed

lemma display_name_stored:
  assumes "CHR ''-'' \<notin> set tok" "CHR ''/'' \<notin> set tok" "CHR ''/'' \<notin> set rest"
  shows "display_name (path_join [u, tok @ CHR ''-'' # rest]) = rest"
proof -
  have "tok @ CHR ''-'' # rest \<noteq> ''.''" "tok @ CHR ''-'' # rest \<noteq> ''..''"
    using assms(1) by (auto simp: append_eq_Cons_conv)
  then have "path_basename (path_join [u, tok @ CHR ''-'' # rest]) = tok @ CHR ''-'' # rest"
    using assms(2,3) by (intro basename_stored) auto
  then show ?thesis
    using assms(1) by (simp add: display_name_def split_first slice1_def join_split)
qed









declare exec.simps(2) [simp del]

lemma exec_fail: "step st ev = Inl f \<Longrightarrow> exec st (ev # evs) = ([], Inl f)"
  by (simp add: exec.simps)

lemma exec_ok:
  "step st ev = Inr (out, st') \<Longrightarrow>
   exec st (ev # evs) = ((ev, out) # fst (exec st' evs), snd (exec st' evs))"
  by (simp add: exec.simps case_prod_unfold)



text \<open>A join changes only the room table and the properties left on inherited objects.\<close>

lemma set_sender_frame:
  "activeTransfers (set_sender k c x st) = activeTransfers st"
  "streams (set_sender k c x st) = streams st"
  "files (set_sender k c x st) = files st"
  "timers (set_sender k c x st) = timers st"
  "dirname (set_sender k c x st) = dirname st"
  by (cases x; simp)+

lemma set_receiver_frame:
  "activeTransfers (set_receiver k c x st) = activeTransfers st"
  "streams (set_receiver k c x st) = streams st"
  "files (set_receiver k c x st) = files st"
  "timers (set_receiver k c x st) = timers st"
  "dirname (set_receiver k c x st) = dirname st"
  by (cases x; simp)+

lemma join_room_frame:
  assumes "join_room c k st = (out, st')"
  shows "activeTransfers st' = activeTransfers st" "streams st' = streams st"
    "files st' = files st" "timers st' = timers st" "dirname st' = dirname st"
  using assms
  by (auto simp: join_room_def Let_def set_sender_frame set_receiver_frame split: if_splits)





lemma cleanup_rooms_none:
  "\<forall>kr\<in>set rs. \<not> occupies sock (snd kr) \<Longrightarrow> cleanup_rooms sock rs = rs"
  by (induction rs) auto

lemma cleanup_rooms_first:
  "\<forall>kr\<in>set pre. \<not> occupies sock (snd kr) \<Longrightarrow> occupies sock r \<Longrightarrow>
   cleanup_rooms sock (pre @ (k, r) # post) = pre @ post"
  by (induction pre) auto

lemma cleanup_rooms_length: "length rs \<le> Suc (length (cleanup_rooms sock rs))"
  by (induction rs) auto

lemma rooms_disconnect: "rooms (snd (disconnect sock st)) = cleanup_rooms sock (rooms st)"
  by (simp add: disconnect_def split: option.splits)

lemma chunk_events_Nil [simp]: "chunk_events i [] = []"
  by (simp add: chunk_events_def)

lemma chunk_events_Cons [simp]:
  "chunk_events i ((ev, out) # tr)
     = (if ev = StreamData i then out @ chunk_events i tr else chunk_events i tr)"
  by (simp add: chunk_events_def)

lemma progress_values_append [simp]:
  "progress_values (xs @ ys) = progress_values xs @ progress_values ys"
  by (induction xs rule: progress_values.induct) simp_all

lemma chunk_lengths_append [simp]:
  "chunk_lengths (xs @ ys) = chunk_lengths xs @ chunk_lengths ys"
  by (induction xs rule: chunk_lengths.induct) simp_all

text \<open>What a \<open>data\<close> event does when it is handled.\<close>

lemma step_data:
  assumes "step st (StreamData i) = Inr (out, st')"
  shows "i < length (streams st) \<and> \<not> closed (streams st ! i) \<and> unread (streams st ! i) \<noteq> [] \<and>
    (\<exists>t. activeTransfers st (socket_id (streams st ! i)) = Some t \<and>
       out = [(IoTo (c_receiverId (streams st ! i)),
               FileChunk (c_fileId (streams st ! i)) (take highWaterMark (unread (streams st ! i)))
                 (progress (sentBytes t) (stats_size (streams st ! i)))),
              (ToSocket (socket_id (streams st ! i)),
               TransferProgress
                 (progress (sentBytes t + length (take highWaterMark (unread (streams st ! i))))
                    (stats_size (streams st ! i))))] \<and>
       st' = st\<lparr>streams := (streams st)[i := (streams st ! i)\<lparr>unread := drop highWaterMark (unread (streams st ! i))\<rparr>],
                activeTransfers := (activeTransfers st)(socket_id (streams st ! i) \<mapsto>
                   t\<lparr>sentBytes := sentBytes t + length (take highWaterMark (unread (streams st ! i)))\<rparr>)\<rparr>)"
  using assms
  by (auto simp: step_def on_data_def Let_def split: if_splits option.splits)

text \<open>The streams already open keep their place and the variables they close over.\<close>

lemma step_streams:
  assumes "step st ev = Inr (out, st')" "j < length (streams st)"
  shows "j < length (streams st')"
    and "socket_id (streams st' ! j) = socket_id (streams st ! j)"
    and "c_receiverId (streams st' ! j) = c_receiverId (streams st ! j)"
    and "c_fileId (streams st' ! j) = c_fileId (streams st ! j)"
    and "stats_size (streams st' ! j) = stats_size (streams st ! j)"
    and "closed (streams st ! j) \<Longrightarrow> closed (streams st' ! j)"
    and "ev \<noteq> StreamData j \<Longrightarrow> unread (streams st' ! j) = unread (streams st ! j)"
    and "ev \<noteq> StreamEnd j \<Longrightarrow> ev \<noteq> StreamError j \<Longrightarrow> closed (streams st' ! j) = closed (streams st ! j)"
proof -
  have "j < length (streams st') \<and>
    socket_id (streams st' ! j) = socket_id (streams st ! j) \<and>
    c_receiverId (streams st' ! j) = c_receiverId (streams st ! j) \<and>
    c_fileId (streams st' ! j) = c_fileId (streams st ! j) \<and>
    stats_size (streams st' ! j) = stats_size (streams st ! j) \<and>
    (closed (streams st ! j) \<longrightarrow> closed (streams st' ! j)) \<and>
    (ev \<noteq> StreamData j \<longrightarrow> unread (streams st' ! j) = unread (streams st ! j)) \<and>
    (ev \<noteq> StreamEnd j \<longrightarrow> ev \<noteq> StreamError j \<longrightarrow> closed (streams st' ! j) = closed (streams st ! j))"
  proof (cases ev)
    case (JoinRoom c k)
    with assms(1) have "join_room c k st = (out, st')" by (simp add: step_def)
    from join_room_frame(2)[OF this] assms(2) show ?thesis by simp
  next
    case (StartTransfer c f r)
    with assms show ?thesis
      by (auto simp: step_def start_transfer_def Let_def nth_append split: option.splits)
  next
    case (StreamData i)
    with assms show ?thesis
      by (auto simp: step_def on_data_def Let_def nth_list_update split: if_splits option.splits)
  next
    case (StreamEnd i)
    with assms show ?thesis
      by (auto simp: step_def on_end_def Let_def nth_list_update split: if_splits)
  next
    case (StreamError i)
    with assms show ?thesis
      by (auto simp: step_def on_error_def Let_def nth_list_update split: if_splits)
  next
    case (Timeout p)
    with assms show ?thesis
      by (auto simp: step_def on_timeout_def split: if_splits option.splits node.splits)
  next
    case (Disconnect c)
    with assms show ?thesis
      by (auto simp: step_def disconnect_def split: option.splits)
  qed
  then show "j < length (streams st')"
    and "socket_id (streams st' ! j) = socket_id (streams st ! j)"
    and "c_receiverId (streams st' ! j) = c_receiverId (streams st ! j)"
    and "c_fileId (streams st' ! j) = c_fileId (streams st ! j)"
    and "stats_size (streams st' ! j) = stats_size (streams st ! j)"
    and "closed (streams st ! j) \<Longrightarrow> closed (streams st' ! j)"
    and "ev \<noteq> StreamData j \<Longrightarrow> unread (streams st' ! j) = unread (streams st ! j)"
    and "ev \<noteq> StreamEnd j \<Longrightarrow> ev \<noteq> StreamError j \<Longrightarrow> closed (streams st' ! j) = closed (streams st ! j)"
    by blast+
qed

text \<open>Only a connection's own \<open>start-transfer\<close> creates its record or lowers its byte count.\<close>

lemma step_record:
  assumes "step st ev = Inr (out, st')" "\<not> starts c ev" "activeTransfers st' c = Some t'"
  shows "\<exists>t. activeTransfers st c = Some t \<and> sentBytes t \<le> sentBytes t'"
proof (cases ev)
  case (JoinRoom a k)
  with assms(1) have "join_room a k st = (out, st')" by (simp add: step_def)
  from join_room_frame(1)[OF this] assms(3) show ?thesis by simp
next
  case (StartTransfer a f r)
  with assms show ?thesis
    by (auto simp: step_def start_transfer_def Let_def split: option.splits if_splits)
next
  case (StreamData i)
  with assms show ?thesis
    by (auto simp: step_def on_data_def Let_def split: if_splits option.splits)
next
  case (StreamEnd i)
  with assms show ?thesis
    by (auto simp: step_def on_end_def Let_def split: if_splits)
next
  case (StreamError i)
  with assms show ?thesis
    by (auto simp: step_def on_error_def Let_def split: if_splits)
next
  case (Timeout p)
  with assms show ?thesis
    by (auto simp: step_def on_timeout_def split: if_splits option.splits node.splits)
next
  case (Disconnect a)
  with assms show ?thesis
    by (auto simp: step_def disconnect_def split: option.splits if_splits)
qed

subsection \<open>Streams in a run\<close>

lemma step_no_record:
  assumes "step st ev = Inr (out, st')" "\<not> starts c ev" "activeTransfers st c = None"
  shows "activeTransfers st' c = None"
proof (cases "activeTransfers st' c")
  case None
  then show ?thesis .
next
  case (Some t')
  from step_record[OF assms(1,2) Some] assms(3) show ?thesis by simp
qed

text \<open>With no record under the connection's key, none of its streams gets a chunk out.\<close>

lemma silent_without_record:
  assumes "activeTransfers st c = None" "\<forall>ev\<in>set evs. \<not> starts c ev"
    and "i < length (streams st)" "socket_id (streams st ! i) = c"
  shows "chunk_events i (fst (exec st evs)) = []"
  using assms
proof (induction evs arbitrary: st)
  case Nil
  then show ?case by simp
next
  case (Cons ev evs)
  show ?case
  proof (cases "step st ev")
    case (Inl f)
    then show ?thesis by (simp add: exec_fail)
  next
    case (Inr p)
    obtain out st' where p: "p = (out, st')" by (cases p)
    have ok: "step st ev = Inr (out, st')" using Inr p by simp
    have nd: "ev \<noteq> StreamData i"
    proof
      assume "ev = StreamData i"
      with ok step_data[of st i out st'] Cons.prems(1,4) show False by auto
    qed
    have "activeTransfers st' c = None"
      using step_no_record[OF ok _ Cons.prems(1)] Cons.prems(2) by simp
    moreover have "i < length (streams st')" "socket_id (streams st' ! i) = c"
      using step_streams(1,2)[OF ok Cons.prems(3)] Cons.prems(4) by simp_all
    ultimately have "chunk_events i (fst (exec st' evs)) = []"
      using Cons.prems(2) by (intro Cons.IH) simp_all
    then show ?thesis using nd by (simp add: exec_ok[OF ok])
  qed
qed

lemma data_without_record:
  assumes "activeTransfers st (socket_id (streams st ! i)) = None"
    and "i < length (streams st)" "\<not> closed (streams st ! i)" "unread (streams st ! i) \<noteq> []"
  shows "step st (StreamData i) = Inl TypeError"
  using assms by (simp add: step_def on_data_def Let_def)









lemma start_existing:
  assumes "lookup (files st) (path_join [uploadsDir st, fid]) = Some nd"
  shows "start_transfer sock fid rid st
     = ([(IoTo rid, TransferStarted \<lparr>info_id = fid,
            info_name = display_name (path_join [uploadsDir st, fid]),
            info_size = node_size nd, info_type = getMimeType (path_join [uploadsDir st, fid])\<rparr>)],
        st\<lparr>activeTransfers := (activeTransfers st)(sock \<mapsto>
              \<lparr>fileId = fid, receiverId = rid, filePath = path_join [uploadsDir st, fid],
               sentBytes = 0, totalBytes = node_size nd\<rparr>),
           streams := streams st @
             [\<lparr>socket_id = sock, c_fileId = fid, c_receiverId = rid,
               c_filePath = path_join [uploadsDir st, fid], stats_size = node_size nd,
               unread = node_bytes nd, regular = is_file nd, closed = False\<rparr>]\<rparr>)"
  using assms by (simp add: start_transfer_def Let_def)

subsection \<open>The example runs\<close>

lemmas path_defs = path_join_def normalize_def segments_def norm_step_def

lemmas model_defs =
  exec.simps step_def join_room_def start_transfer_def on_data_def on_end_def
  on_error_def on_timeout_def disconnect_def Let_def display_name_def
  path_basename_def slice1_def getMimeType_def path_extname_def toLowerCase_def lower_char_def
  mimeTypes_def highWaterMark_def obj_set_def comes_before_def array_index_def digit_def
  digits_val_def empty_room_def truthy_def occupies_def emitted_by_def lookup_def
  rooms_get_def builtin_functions_def no_slots_def inherit_def stored_def

lemmas run_defs =
  model_defs path_defs uploadsDir_def initial_def store_100k_def store_3_def mid_transfer_def
  fresh_transfer_def

text \<open>Room codes that are array indices are enumerated first, whenever they were created.\<close>

lemma key_order:
  "map fst (rooms (snd (join_room ''C'' ''17'' (snd (join_room ''A'' ''blue'' initial)))))
     = [''17'', ''blue'']"
  by (simp add: run_defs)

text \<open>The two example states are states the server reaches.\<close>

lemma reach_mid_transfer:
  "snd (exec store_100k [JoinRoom ''A'' ''4711'', JoinRoom ''B'' ''4711'',
      StartTransfer ''A'' ''1-a.bin'' ''B'', StreamData 0]) = Inr mid_transfer"
  by (simp add: run_defs progress_65536 progress_0)

lemma reach_fresh_transfer:
  "snd (exec store_3 [StartTransfer ''A'' ''1-a.txt'' ''B'']) = Inr fresh_transfer"
  by (simp add: run_defs numeral_3_eq_3)


lemma busy_trace:
  "fst (exec mid_transfer [JoinRoom ''C'' ''4711'', StreamData 0, StreamEnd 0]) =
     [(JoinRoom ''C'' ''4711'', [(ToSocket ''C'', RoomFull)]),
      (StreamData 0,
       [(IoTo ''B'', FileChunk ''1-a.bin'' (replicate 34464 0) (Num 66)),
        (ToSocket ''A'', TransferProgress (Num 100))]),
      (StreamEnd 0, [(ToSocket ''A'', TransferComplete), (IoTo ''B'', TransferComplete)])]"
  by (simp add: run_defs progress_65536 progress_full)



section \<open>The claims\<close>




text \<open>
  C2, amended. For every chunk of an active transfer the handler first emits \<open>file-chunk\<close>
  to the receiver, with the progress of the byte count as it was before this chunk; then it
  adds the chunk's length to \<open>sentBytes\<close>; then it emits \<open>transfer-progress\<close> to the sender,
  with the progress of the new count. The two values come from different counts.
\<close>

theorem C2_data_order:
  assumes "i < length (streams st)" "\<not> closed (streams st ! i)" "unread (streams st ! i) \<noteq> []"
    and "activeTransfers st (socket_id (streams st ! i)) = Some t"
  shows "\<exists>st'. step st (StreamData i)
       = Inr ([(IoTo (c_receiverId (streams st ! i)),
                FileChunk (c_fileId (streams st ! i)) (take highWaterMark (unread (streams st ! i)))
                  (progress (sentBytes t) (stats_size (streams st ! i)))),
               (ToSocket (socket_id (streams st ! i)),
                TransferProgress
                  (progress (sentBytes t + length (take highWaterMark (unread (streams st ! i))))
                     (stats_size (streams st ! i))))], st')
     \<and> activeTransfers st' (socket_id (streams st ! i))
       = Some (t\<lparr>sentBytes := sentBytes t + length (take highWaterMark (unread (streams st ! i)))\<rparr>)"
  using assms by (simp add: step_def on_data_def Let_def)

theorem C2_data_order_witness:
  "0 < length (streams mid_transfer) \<and> \<not> closed (streams mid_transfer ! 0) \<and>
   unread (streams mid_transfer ! 0) \<noteq> [] \<and>
   activeTransfers mid_transfer (socket_id (streams mid_transfer ! 0))
     = Some \<lparr>fileId = ''1-a.bin'', receiverId = ''B'', filePath = ''/srv/language-translator/backend/uploads/1-a.bin'',
             sentBytes = 65536, totalBytes = 100000\<rparr> \<and>
   emitted_by (step mid_transfer (StreamData 0))
     = [(IoTo ''B'', FileChunk ''1-a.bin'' (replicate 34464 0) (Num 66)),
        (ToSocket ''A'', TransferProgress (Num 100))]"
proof -
  have h: "0 < length (streams mid_transfer)" "\<not> closed (streams mid_transfer ! 0)"
    "unread (streams mid_transfer ! 0) \<noteq> []"
    "activeTransfers mid_transfer (socket_id (streams mid_transfer ! 0))
     = Some \<lparr>fileId = ''1-a.bin'', receiverId = ''B'', filePath = ''/srv/language-translator/backend/uploads/1-a.bin'',
             sentBytes = 65536, totalBytes = 100000\<rparr>"
    by (simp_all add: mid_transfer_def store_100k_def initial_def)
  from C2_data_order[OF h] obtain st' where
    "step mid_transfer (StreamData 0)
       = Inr ([(IoTo (c_receiverId (streams mid_transfer ! 0)),
                FileChunk (c_fileId (streams mid_transfer ! 0))
                  (take highWaterMark (unread (streams mid_transfer ! 0)))
                  (progress 65536 (stats_size (streams mid_transfer ! 0)))),
               (ToSocket (socket_id (streams mid_transfer ! 0)),
                TransferProgress
                  (progress (65536 + length (take highWaterMark (unread (streams mid_transfer ! 0))))
                     (stats_size (streams mid_transfer ! 0))))], st')"
    by auto
  then have "emitted_by (step mid_transfer (StreamData 0))
     = [(IoTo ''B'', FileChunk ''1-a.bin'' (replicate 34464 0) (Num 66)),
        (ToSocket ''A'', TransferProgress (Num 100))]"
    by (simp add: emitted_by_def mid_transfer_def store_100k_def initial_def highWaterMark_def progress_65536 progress_full)
  with h show ?thesis by blast
qed

text \<open>
  As stated, C2 has the count raised before \<open>file-chunk\<close> is emitted and both events carry
  one value. For a file of three bytes, read in one chunk, \<open>file-chunk\<close> carries 0 while the
  count after the chunk gives 100, which is what \<open>transfer-progress\<close> carries.
\<close>

theorem C2_counterexample:
  "emitted_by (step fresh_transfer (StreamData 0))
     = [(IoTo ''B'', FileChunk ''1-a.txt'' [1, 2, 3] (Num 0)),
        (ToSocket ''A'', TransferProgress (Num 100))] \<and>
   progress (0 + length [1, 2, 3 :: byte]) 3 = Num 100 \<and> Num 0 \<noteq> Num 100"
  by (simp add: run_defs progress_0 progress_full)




text \<open>
  C4. When a connection disconnects while a record of it is in \<open>activeTransfers\<close>, the
  receiver named in the record is sent \<open>transfer-cancelled\<close> and the record is deleted. From then
  on, whatever events follow (the connection itself, being gone, starts nothing), the \<open>data\<close>
  events of its streams emit no \<open>file-chunk\<close>: the stream is not closed, and its next chunk
  makes the callback read \<open>sentBytes\<close> of a record that is no longer there, which throws a
  \<open>TypeError\<close> before anything is emitted.
\<close>

theorem C4_disconnect_stops:
  assumes "activeTransfers st sock = Some t" "\<forall>ev\<in>set evs. \<not> starts sock ev"
    and "i < length (streams st)" "socket_id (streams st ! i) = sock"
  shows "fst (disconnect sock st) = [(IoTo (receiverId t), TransferCancelled)] \<and>
    activeTransfers (snd (disconnect sock st)) sock = None \<and>
    chunk_events i (fst (exec (snd (disconnect sock st)) evs)) = [] \<and>
    (\<not> closed (streams st ! i) \<and> unread (streams st ! i) \<noteq> [] \<longrightarrow>
       step (snd (disconnect sock st)) (StreamData i) = Inl TypeError)"
proof -
  let ?st' = "snd (disconnect sock st)"
  have a: "fst (disconnect sock st) = [(IoTo (receiverId t), TransferCancelled)]"
    using assms(1) by (simp add: disconnect_def)
  have b: "activeTransfers ?st' sock = None"
    using assms(1) by (simp add: disconnect_def)
  have s: "streams ?st' = streams st"
    using assms(1) by (simp add: disconnect_def)
  have c: "chunk_events i (fst (exec ?st' evs)) = []"
    using b assms(2-4) by (intro silent_without_record[where c = sock]) (simp_all add: s)
  have d: "\<not> closed (streams st ! i) \<and> unread (streams st ! i) \<noteq> [] \<longrightarrow>
       step ?st' (StreamData i) = Inl TypeError"
    using data_without_record[of ?st' i] b assms(3,4) by (simp add: s)
  from a b c d show ?thesis by blast
qed

theorem C4_disconnect_stops_witness:
  "activeTransfers mid_transfer ''A''
     = Some \<lparr>fileId = ''1-a.bin'', receiverId = ''B'', filePath = ''/srv/language-translator/backend/uploads/1-a.bin'',
             sentBytes = 65536, totalBytes = 100000\<rparr> \<and>
   filter (starts ''A'') [JoinRoom ''C'' ''4711'', StreamData 0] = [] \<and>
   0 < length (streams mid_transfer) \<and> socket_id (streams mid_transfer ! 0) = ''A'' \<and>
   \<not> closed (streams mid_transfer ! 0) \<and> unread (streams mid_transfer ! 0) \<noteq> [] \<and>
   fst (disconnect ''A'' mid_transfer) = [(IoTo ''B'', TransferCancelled)] \<and>
   chunk_events 0 (fst (exec (snd (disconnect ''A'' mid_transfer))
      [JoinRoom ''C'' ''4711'', StreamData 0])) = [] \<and>
   step (snd (disconnect ''A'' mid_transfer)) (StreamData 0) = Inl TypeError"
proof -
  have h: "activeTransfers mid_transfer ''A''
     = Some \<lparr>fileId = ''1-a.bin'', receiverId = ''B'', filePath = ''/srv/language-translator/backend/uploads/1-a.bin'',
             sentBytes = 65536, totalBytes = 100000\<rparr>"
    "\<forall>ev\<in>set [JoinRoom ''C'' ''4711'', StreamData 0]. \<not> starts ''A'' ev"
    "0 < length (streams mid_transfer)" "socket_id (streams mid_transfer ! 0) = ''A''"
    by (simp_all add: mid_transfer_def store_100k_def initial_def)
  have g: "\<not> closed (streams mid_transfer ! 0)" "unread (streams mid_transfer ! 0) \<noteq> []"
    by (simp_all add: mid_transfer_def store_100k_def initial_def)
  have h2': "filter (starts ''A'') [JoinRoom ''C'' ''4711'', StreamData 0] = []"
    by simp
  from C4_disconnect_stops[OF h] g h(1,3,4) h2' show ?thesis by simp
qed







text \<open>
  C7. When a stream that has not ended reports a read error, the sender is sent
  \<open>transfer-error\<close> with \<open>Error reading file\<close>, the receiver \<open>transfer-error\<close> with
  \<open>Error transferring file\<close>, the record under the sender's key is gone at once, and neither
  the timers nor the stored files change: no deletion is scheduled.
\<close>

theorem C7_read_error:
  assumes "i < length (streams st)" "\<not> closed (streams st ! i)"
  shows "\<exists>st'. step st (StreamError i)
       = Inr ([(ToSocket (socket_id (streams st ! i)), TransferError ''Error reading file''),
               (IoTo (c_receiverId (streams st ! i)), TransferError ''Error transferring file'')], st')
     \<and> activeTransfers st' (socket_id (streams st ! i)) = None
     \<and> timers st' = timers st \<and> files st' = files st"
  using assms by (simp add: step_def on_error_def Let_def)

theorem C7_read_error_witness:
  "0 < length (streams mid_transfer) \<and> \<not> closed (streams mid_transfer ! 0) \<and>
   emitted_by (step mid_transfer (StreamError 0))
     = [(ToSocket ''A'', TransferError ''Error reading file''),
        (IoTo ''B'', TransferError ''Error transferring file'')]"
proof -
  have h: "0 < length (streams mid_transfer)" "\<not> closed (streams mid_transfer ! 0)"
    by (simp_all add: mid_transfer_def store_100k_def initial_def)
  from C7_read_error[OF h] obtain st' where
    "step mid_transfer (StreamError 0)
       = Inr ([(ToSocket (socket_id (streams mid_transfer ! 0)), TransferError ''Error reading file''),
               (IoTo (c_receiverId (streams mid_transfer ! 0)), TransferError ''Error transferring file'')], st')"
    by auto
  then have "emitted_by (step mid_transfer (StreamError 0))
     = [(ToSocket ''A'', TransferError ''Error reading file''),
        (IoTo ''B'', TransferError ''Error transferring file'')]"
    by (simp add: emitted_by_def mid_transfer_def store_100k_def initial_def)
  with h show ?thesis by blast
qed

text \<open>
  C8. The \<open>name\<close> of the \<open>transfer-started\<close> metadata is the stored identifier without its
  first hyphen-delimited token: for \<open>1699999999999-42-photo.png\<close> it is \<open>42-photo.png\<close>, and
  for every stored name \<open>tok-rest\<close> whose first token \<open>tok\<close> has no hyphen it is \<open>rest\<close>,
  further hyphens of \<open>rest\<close> included; this in whatever directory the server runs, hyphens in
  the directory's path or not.
\<close>

theorem C8_display_name:
  "display_name (path_join [uploadsDir st, ''1699999999999-42-photo.png'']) = ''42-photo.png'' \<and>
   (CHR ''-'' \<notin> set tok \<and> CHR ''/'' \<notin> set tok \<and> CHR ''/'' \<notin> set rest \<and>
    lookup (files st) (path_join [uploadsDir st, tok @ CHR ''-'' # rest]) = Some nd \<longrightarrow>
    (\<exists>info. fst (start_transfer sock (tok @ CHR ''-'' # rest) rid st) = [(IoTo rid, TransferStarted info)]
       \<and> info_name info = rest))"
proof
  show "display_name (path_join [uploadsDir st, ''1699999999999-42-photo.png'']) = ''42-photo.png''"
    using display_name_stored[of "''1699999999999''" "''42-photo.png''" "uploadsDir st"] by simp
next
  show "CHR ''-'' \<notin> set tok \<and> CHR ''/'' \<notin> set tok \<and> CHR ''/'' \<notin> set rest \<and>
    lookup (files st) (path_join [uploadsDir st, tok @ CHR ''-'' # rest]) = Some nd \<longrightarrow>
    (\<exists>info. fst (start_transfer sock (tok @ CHR ''-'' # rest) rid st) = [(IoTo rid, TransferStarted info)]
       \<and> info_name info = rest)"
    by (auto simp: start_existing display_name_stored)
qed

theorem C8_display_name_witness:
  "CHR ''-'' \<notin> set ''1699999999999'' \<and> CHR ''/'' \<notin> set ''1699999999999'' \<and>
   CHR ''/'' \<notin> set ''42-photo.png'' \<and>
   lookup (files store_photo)
     (path_join [uploadsDir store_photo, ''1699999999999'' @ CHR ''-'' # ''42-photo.png''])
     = Some (File [1, 2, 3]) \<and>
   (\<exists>info. fst (start_transfer ''A'' (''1699999999999'' @ CHR ''-'' # ''42-photo.png'') ''B'' store_photo)
      = [(IoTo ''B'', TransferStarted info)] \<and> info_name info = ''42-photo.png'')"
proof -
  have h: "CHR ''-'' \<notin> set ''1699999999999'' \<and> CHR ''/'' \<notin> set ''1699999999999'' \<and>
     CHR ''/'' \<notin> set ''42-photo.png'' \<and>
     lookup (files store_photo)
       (path_join [uploadsDir store_photo, ''1699999999999'' @ CHR ''-'' # ''42-photo.png''])
       = Some (File [1, 2, 3])"
    by (simp add: store_photo_def run_defs)
  from C8_display_name[of store_photo "''1699999999999''" "''42-photo.png''" "File [1, 2, 3]" "''A''" "''B''"] h
  show ?thesis by blast
qed




text \<open>
  C10. Handling a disconnect removes at most one room: if no room holds the connection, the
  table is unchanged; otherwise the first room, in the order of enumeration, that holds it in
  either slot is deleted whole, and every room before and after it stays, also a later room
  that holds the same connection.
\<close>

theorem C10_disconnect_rooms:
  "((\<forall>kr\<in>set (rooms st). \<not> occupies sock (snd kr)) \<longrightarrow>
      rooms (snd (disconnect sock st)) = rooms st) \<and>
   (rooms st = pre @ (k, r) # post \<and> (\<forall>kr\<in>set pre. \<not> occupies sock (snd kr)) \<and> occupies sock r \<longrightarrow>
      rooms (snd (disconnect sock st)) = pre @ post) \<and>
   length (rooms st) \<le> Suc (length (rooms (snd (disconnect sock st))))"
  by (simp add: rooms_disconnect cleanup_rooms_none cleanup_rooms_first cleanup_rooms_length)

theorem C10_disconnect_rooms_witness:
  "rooms (snd (disconnect ''Z'' (initial\<lparr>rooms := three_rooms\<rparr>))) = three_rooms \<and>
   rooms (snd (disconnect ''A'' (initial\<lparr>rooms := three_rooms\<rparr>)))
     = [(''17'', \<lparr>sender = Some ''X'', receiver = None, r_fileId = None\<rparr>),
        (''red'', \<lparr>sender = Some ''C'', receiver = Some ''A'', r_fileId = None\<rparr>)]"
proof
  have "\<forall>kr\<in>set (rooms (initial\<lparr>rooms := three_rooms\<rparr>)). \<not> occupies ''Z'' (snd kr)"
    by (simp add: three_rooms_def occupies_def)
  with C10_disconnect_rooms[of "initial\<lparr>rooms := three_rooms\<rparr>" "''Z''"]
  show "rooms (snd (disconnect ''Z'' (initial\<lparr>rooms := three_rooms\<rparr>))) = three_rooms"
    by simp
next
  have "rooms (initial\<lparr>rooms := three_rooms\<rparr>)
      = [(''17'', \<lparr>sender = Some ''X'', receiver = None, r_fileId = None\<rparr>)]
        @ (''blue'', \<lparr>sender = Some ''A'', receiver = Some ''B'', r_fileId = None\<rparr>)
        # [(''red'', \<lparr>sender = Some ''C'', receiver = Some ''A'', r_fileId = None\<rparr>)]
      \<and> (\<forall>kr\<in>set [(''17'', \<lparr>sender = Some ''X'', receiver = None, r_fileId = None\<rparr>)].
            \<not> occupies ''A'' (snd kr))
      \<and> occupies ''A'' \<lparr>sender = Some ''A'', receiver = Some ''B'', r_fileId = None\<rparr>"
    by (simp add: three_rooms_def occupies_def)
  with C10_disconnect_rooms[of "initial\<lparr>rooms := three_rooms\<rparr>" "''A''"
      "[(''17'', \<lparr>sender = Some ''X'', receiver = None, r_fileId = None\<rparr>)]"
      "''blue''" "\<lparr>sender = Some ''A'', receiver = Some ''B'', r_fileId = None\<rparr>"
      "[(''red'', \<lparr>sender = Some ''C'', receiver = Some ''A'', r_fileId = None\<rparr>)]"]
  show "rooms (snd (disconnect ''A'' (initial\<lparr>rooms := three_rooms\<rparr>)))
     = [(''17'', \<lparr>sender = Some ''X'', receiver = None, r_fileId = None\<rparr>),
        (''red'', \<lparr>sender = Some ''C'', receiver = Some ''A'', r_fileId = None\<rparr>)]"
    by simp
qed

end
